theory Spec2Isabelle
  imports Main "HOL-Library.Word" "HOL-Library.Finite_Map"
begin

section \<open>JavaScript values as the two route handlers observe them\<close>

text \<open>
  A JavaScript string is a sequence of UTF-16 code units, and \<open>slice\<close> counts code units;
  an \<open>ArrayBuffer\<close> is a sequence of bytes. Literals of the source are written as HOL
  strings and turned into code units by \<open>js\<close>.
\<close>

type_synonym jsstring = "16 word list"
type_synonym bytes = "8 word list"

definition js :: "string \<Rightarrow> jsstring" where
  "js s = map of_char s"

text \<open>
  What \<open>request.json()\<close> can resolve to, plus \<open>undefined\<close> for a property that is not
  there. A number is kept as the two things the handler can observe of it: whether it is
  falsy (zero) and the text that \<open>ToString\<close> gives for it.
\<close>

datatype jsval =
    Undefined
  | Null
  | Bool bool
  | Num bool jsstring
  | Str jsstring
  | Arr "jsval list"
  | Obj "(jsstring \<times> jsval) list"

text \<open>The operand of \<open>!text\<close>: \<open>truthy v\<close> is \<open>!!v\<close>.\<close>

fun truthy :: "jsval \<Rightarrow> bool" where
  "truthy Undefined = False"
| "truthy Null = False"
| "truthy (Bool b) = b"
| "truthy (Num zero shown) = (\<not> zero)"
| "truthy (Str s) = (s \<noteq> [])"
| "truthy (Arr xs) = True"
| "truthy (Obj fs) = True"

text \<open>
  \<open>ToString\<close>, as a template literal applies it; \<open>None\<close> is a thrown \<open>TypeError\<close>.
  An array is joined with commas, \<open>null\<close> and \<open>undefined\<close> elements giving the empty
  string. A parsed object has no callable property of its own, so it is rendered by
  \<open>Object.prototype.toString\<close> unless an own property shadows that method.
\<close>

fun ToString :: "jsval \<Rightarrow> jsstring option"
  and join :: "jsval list \<Rightarrow> jsstring option"
where
  "ToString Undefined = Some (js ''undefined'')"
| "ToString Null = Some (js ''null'')"
| "ToString (Bool b) = Some (js (if b then ''true'' else ''false''))"
| "ToString (Num zero shown) = Some shown"
| "ToString (Str s) = Some s"
| "ToString (Arr xs) = join xs"
| "ToString (Obj fs) =
     (if js ''toString'' \<in> set (map fst fs) then None else Some (js ''[object Object]''))"
| "join [] = Some []"
| "join (x # xs) =
     (case (if x = Undefined \<or> x = Null then Some [] else ToString x) of
        None \<Rightarrow> None
      | Some a \<Rightarrow>
          (if xs = [] then Some a
           else (case join xs of None \<Rightarrow> None | Some b \<Rightarrow> Some (a @ js '','' @ b))))"

text \<open>
  Property read \<open>v.name\<close> on a parsed value: \<open>None\<close> is the \<open>TypeError\<close> of reading a
  property of \<open>null\<close> or \<open>undefined\<close>. Of two equal keys in a JSON object the last wins.
  None of the names read here is a property of a string, number, boolean or array.
\<close>

fun get_prop :: "jsval \<Rightarrow> jsstring \<Rightarrow> jsval option" where
  "get_prop Undefined name = None"
| "get_prop Null name = None"
| "get_prop (Obj fs) name =
     (case map_of (rev fs) name of None \<Rightarrow> Some Undefined | Some v \<Rightarrow> Some v)"
| "get_prop v name = Some Undefined"

text \<open>\<open>text.slice(0, 100)\<close>: defined on strings and arrays, a \<open>TypeError\<close> elsewhere.\<close>

fun slice_0_100 :: "jsval \<Rightarrow> jsval option" where
  "slice_0_100 (Str s) = Some (Str (take 100 s))"
| "slice_0_100 (Arr xs) = Some (Arr (take 100 xs))"
| "slice_0_100 v = None"

section \<open>The speech-synthesis route\<close>

definition MAX_CACHE_SIZE :: nat where
  "MAX_CACHE_SIZE = 50"

definition CACHE_TTL :: nat where
  "CACHE_TTL = 5 * 60 * 1000"

definition default_voice_id :: jsstring where
  "default_voice_id = js ''pNInz6obpgDQGcFmaJgB''"

text \<open>The body of the incoming request: \<open>request.json()\<close> rejects or resolves.\<close>

datatype request_body = Not_json | Parsed jsval

text \<open>
  \<open>const { text, voice_id = "pNInz6obpgDQGcFmaJgB" } = await request.json()\<close>:
  the default is taken exactly when the property is \<open>undefined\<close>.
\<close>

definition destructure :: "jsval \<Rightarrow> (jsval \<times> jsval) option" where
  "destructure v =
     (case get_prop v (js ''text'') of
        None \<Rightarrow> None
      | Some text \<Rightarrow>
          (case get_prop v (js ''voice_id'') of
             None \<Rightarrow> None
           | Some vid \<Rightarrow> Some (text, if vid = Undefined then Str default_voice_id else vid)))"

text \<open>The template \<open>`${voice_id}_${text.slice(0, 100)}`\<close>.\<close>

definition key_of :: "jsstring \<Rightarrow> jsstring \<Rightarrow> jsstring" where
  "key_of voice prefix = voice @ js ''_'' @ prefix"

definition cacheKey :: "jsval \<Rightarrow> jsval \<Rightarrow> jsstring option" where
  "cacheKey voice_id text =
     (case ToString voice_id of
        None \<Rightarrow> None
      | Some voice \<Rightarrow>
          (case slice_0_100 text of
             None \<Rightarrow> None
           | Some head \<Rightarrow>
               (case ToString head of
                  None \<Rightarrow> None
                | Some prefix \<Rightarrow> Some (key_of voice prefix))))"

text \<open>The call to the provider: the URL, the key header and the JSON body.\<close>

record upstream_request =
  url :: jsstring
  xi_api_key :: jsstring
  body_text :: jsval
  model_id :: string
  voice_settings :: "(string \<times> string) list"
  optimize_streaming_latency :: nat
  output_format :: string

definition elevenlabs_request :: "jsstring \<Rightarrow> jsstring \<Rightarrow> jsval \<Rightarrow> upstream_request" where
  "elevenlabs_request voice apiKey t =
     \<lparr> url = js ''https://api.elevenlabs.io/v1/text-to-speech/'' @ voice,
       xi_api_key = apiKey,
       body_text = t,
       model_id = ''eleven_turbo_v2'',
       voice_settings =
         [(''stability'', ''0.5''), (''similarity_boost'', ''0.8''),
          (''style'', ''0.0''), (''use_speaker_boost'', ''false'')],
       optimize_streaming_latency = 4,
       output_format = ''mp3_22050_32'' \<rparr>"

text \<open>
  What \<open>fetch\<close> gives: it rejects, or resolves to a response with a status whose body
  \<open>arrayBuffer()\<close> reads (\<open>None\<close>: reading it rejects).
\<close>

datatype fetch_result = Fetch_rejected | Fetch_response nat "bytes option"

definition ok :: "nat \<Rightarrow> bool" where
  "ok st = (200 \<le> st \<and> st \<le> 299)"

text \<open>The two kinds of response the route builds.\<close>

datatype tts_response = Json_error nat string | Audio bytes

fun decimal :: "nat \<Rightarrow> string" where
  "decimal n =
     (if n < 10 then [char_of (48 + n)] else decimal (n div 10) @ [char_of (48 + n mod 10)])"

fun status :: "tts_response \<Rightarrow> nat" where
  "status (Json_error st msg) = st"
| "status (Audio buf) = 200"

fun headers :: "tts_response \<Rightarrow> (string \<times> string) list" where
  "headers (Json_error st msg) = [(''Content-Type'', ''application/json'')]"
| "headers (Audio buf) =
     [(''Content-Type'', ''audio/mpeg''),
      (''Content-Length'', decimal (length buf)),
      (''Cache-Control'', ''public, max-age=300'')]"

definition failed :: tts_response where
  "failed = Json_error 500 ''Failed to generate speech''"

text \<open>
  The module state: the cache, the pending \<open>setTimeout\<close> callbacks (due time in
  milliseconds and the key each one captured) and the clock they are set against. The
  log of the calls made to the provider and the calls still awaiting their response are
  kept beside it.
\<close>

record tts_state =
  ttsCache :: "(jsstring, bytes) fmap"
  timers :: "(nat \<times> jsstring) list"
  clock :: nat
  upstream_calls :: "upstream_request list"
  in_flight :: "(upstream_request \<times> jsstring) list"

definition cache_size :: "(jsstring, bytes) fmap \<Rightarrow> nat" where
  "cache_size c = fcard (fmdom c)"

definition init_state :: tts_state where
  "init_state =
     \<lparr> ttsCache = fmempty, timers = [], clock = 0, upstream_calls = [], in_flight = [] \<rparr>"

text \<open>
  \<open>POST\<close> up to its \<open>await fetch(...)\<close>: it answers at once, or it has issued the call
  and holds the cache key for when the response is there.
\<close>

datatype begun = Done tts_response | Fetching upstream_request jsstring

definition POST_begin :: "jsstring option \<Rightarrow> (jsstring, bytes) fmap \<Rightarrow> request_body \<Rightarrow> begun" where
  "POST_begin env_key cache body =
     (case body of
        Not_json \<Rightarrow> Done failed
      | Parsed v \<Rightarrow>
          (case destructure v of
             None \<Rightarrow> Done failed
           | Some (text, voice_id) \<Rightarrow>
               if \<not> truthy text then Done (Json_error 400 ''Text is required'')
               else
                 (case cacheKey voice_id text of
                    None \<Rightarrow> Done failed
                  | Some k \<Rightarrow>
                      (case fmlookup cache k of
                         Some cachedAudio \<Rightarrow> Done (Audio cachedAudio)
                       | None \<Rightarrow>
                           (case env_key of
                              None \<Rightarrow> Done (Json_error 500 ''ElevenLabs API key not configured'')
                            | Some apiKey \<Rightarrow>
                                if apiKey = []
                                then Done (Json_error 500 ''ElevenLabs API key not configured'')
                                else
                                  (case ToString voice_id of
                                     None \<Rightarrow> Done failed
                                   | Some voice \<Rightarrow>
                                       Fetching (elevenlabs_request voice apiKey text) k))))))"

text \<open>
  \<open>POST\<close> from the response on: the status check, the read of the body, the bounded
  store with its timer, the answer.
\<close>

definition store :: "jsstring \<Rightarrow> bytes \<Rightarrow> tts_state \<Rightarrow> tts_state" where
  "store k audioBuffer s =
     (if cache_size (ttsCache s) < MAX_CACHE_SIZE
      then s \<lparr> ttsCache := fmupd k audioBuffer (ttsCache s),
               timers := timers s @ [(clock s + CACHE_TTL, k)] \<rparr>
      else s)"

definition POST_resume :: "tts_state \<Rightarrow> jsstring \<Rightarrow> fetch_result \<Rightarrow> tts_response \<times> tts_state" where
  "POST_resume s k r =
     (case r of
        Fetch_rejected \<Rightarrow> (failed, s)
      | Fetch_response st content \<Rightarrow>
          if \<not> ok st then (failed, s)
          else
            (case content of
               None \<Rightarrow> (failed, s)
             | Some audioBuffer \<Rightarrow> (Audio audioBuffer, store k audioBuffer s)))"

text \<open>
  A request handled with nothing else running in between: \<open>fetch\<close> is the provider as
  it answers this call.
\<close>

definition POST :: "jsstring option \<Rightarrow> (upstream_request \<Rightarrow> fetch_result) \<Rightarrow> tts_state \<Rightarrow>
    request_body \<Rightarrow> tts_response \<times> tts_state" where
  "POST env_key fetch s body =
     (case POST_begin env_key (ttsCache s) body of
        Done r \<Rightarrow> (r, s)
      | Fetching req k \<Rightarrow>
          POST_resume (s \<lparr> upstream_calls := upstream_calls s @ [req] \<rparr>) k (fetch req))"

text \<open>
  The timer callback \<open>ttsCache.delete(cacheKey)\<close>, and the run of the pending timer
  \<open>(due, k)\<close>: it leaves the list of pending timers and its callback is called.
\<close>

definition expire :: "jsstring \<Rightarrow> tts_state \<Rightarrow> tts_state" where
  "expire k s = s \<lparr> ttsCache := fmdrop k (ttsCache s) \<rparr>"

definition fire :: "nat \<Rightarrow> jsstring \<Rightarrow> tts_state \<Rightarrow> tts_state" where
  "fire due k s = expire k (s \<lparr> timers := remove1 (due, k) (timers s) \<rparr>)"

section \<open>Requests, responses and timers interleaved\<close>

text \<open>
  The handler runs between its \<open>await\<close>s without interruption; a response from the
  provider, a timer callback or another request may come in between. An event is one such
  uninterrupted piece, and \<open>step\<close> is \<open>None\<close> where the event cannot happen.
\<close>

datatype event =
    Arrive request_body
  | Settle upstream_request jsstring fetch_result
  | Fire nat jsstring
  | Tick nat

fun step :: "jsstring option \<Rightarrow> event \<Rightarrow> tts_state \<Rightarrow> tts_state option" where
  "step env_key (Arrive body) s =
     (case POST_begin env_key (ttsCache s) body of
        Done r \<Rightarrow> Some s
      | Fetching req k \<Rightarrow>
          Some (s \<lparr> upstream_calls := upstream_calls s @ [req],
                    in_flight := in_flight s @ [(req, k)] \<rparr>))"
| "step env_key (Settle req k r) s =
     (if (req, k) \<in> set (in_flight s)
      then Some (snd (POST_resume (s \<lparr> in_flight := remove1 (req, k) (in_flight s) \<rparr>) k r))
      else None)"
| "step env_key (Fire due k) s =
     (if (due, k) \<in> set (timers s) \<and> due \<le> clock s
      then Some (fire due k s)
      else None)"
| "step env_key (Tick t) s =
     (if clock s \<le> t then Some (s \<lparr> clock := t \<rparr>) else None)"

fun run :: "jsstring option \<Rightarrow> event list \<Rightarrow> tts_state \<Rightarrow> tts_state option" where
  "run env_key [] s = Some s"
| "run env_key (e # es) s =
     (case step env_key e s of None \<Rightarrow> None | Some s' \<Rightarrow> run env_key es s')"

text \<open>
  What a request handled right after a run of events is answered with, how many calls to
  the provider have been made by then, and what the clock shows.
\<close>

definition reply_after :: "jsstring option \<Rightarrow> event list \<Rightarrow> tts_state \<Rightarrow>
    (upstream_request \<Rightarrow> fetch_result) \<Rightarrow> request_body \<Rightarrow> tts_response option" where
  "reply_after env_key evs s fetch body =
     map_option (\<lambda>s'. fst (POST env_key fetch s' body)) (run env_key evs s)"

definition calls_after :: "jsstring option \<Rightarrow> event list \<Rightarrow> tts_state \<Rightarrow>
    (upstream_request \<Rightarrow> fetch_result) \<Rightarrow> request_body \<Rightarrow> nat option" where
  "calls_after env_key evs s fetch body =
     map_option (\<lambda>s'. length (upstream_calls (snd (POST env_key fetch s' body))))
       (run env_key evs s)"

definition clock_after :: "jsstring option \<Rightarrow> event list \<Rightarrow> tts_state \<Rightarrow> nat option" where
  "clock_after env_key evs s = map_option clock (run env_key evs s)"

text \<open>
  The entry \<open>b\<close> under \<open>k\<close> is kept until \<open>due\<close>: it is in the cache, no timer for \<open>k\<close> is
  due before \<open>due\<close>, and no call for \<open>k\<close> awaits its response.
\<close>

definition kept :: "jsstring \<Rightarrow> bytes \<Rightarrow> nat \<Rightarrow> tts_state \<Rightarrow> bool" where
  "kept k b due s \<longleftrightarrow>
     fmlookup (ttsCache s) k = Some b \<and>
     (\<forall>d. (d, k) \<in> set (timers s) \<longrightarrow> due \<le> d) \<and>
     k \<notin> snd ` set (in_flight s)"

section \<open>The BI query route\<close>

text \<open>
  The route does not look into the JSON it relays, so the type of JSON values is a
  parameter. \<open>axios.post\<close> resolves with the data of a response, or throws: an axios
  error carries the response it got, if any (status and data), and whether a request was
  made; anything else thrown is not an axios error.
\<close>

record 'j axios_request =
  endpoint :: string
  http_method :: string
  request_headers :: "(string \<times> string) list"
  data :: 'j

datatype 'j thrown = Axios_error "(nat \<times> 'j) option" bool | Other_error

datatype 'j axios_result = Resolved 'j | Rejected "'j thrown"

datatype 'j bi_body = Relayed 'j | Error_body string "'j option"

text \<open>
  \<open>NextResponse.json(body, { status })\<close> builds a \<open>Response\<close>, and its constructor throws
  for a status outside 200..599 and for a status that allows no body (204, 205, 304 in
  that range). Thrown from the \<open>catch\<close> block, this leaves the handler: \<open>Unhandled\<close>.
\<close>

datatype 'j bi_response = Bi_response nat "'j bi_body" | Unhandled

definition json_response :: "nat \<Rightarrow> 'j bi_body \<Rightarrow> 'j bi_response" where
  "json_response st b =
     (if 200 \<le> st \<and> st \<le> 599 \<and> st \<noteq> 204 \<and> st \<noteq> 205 \<and> st \<noteq> 304
      then Bi_response st b else Unhandled)"

definition bi_request :: "'j \<Rightarrow> 'j axios_request" where
  "bi_request body =
     \<lparr> endpoint = ''http://52.3.202.231:8080/bi/query'',
       http_method = ''POST'',
       request_headers =
         [(''Content-Type'', ''application/json''), (''Accept'', ''application/json'')],
       data = body \<rparr>"

text \<open>The \<open>catch\<close> block.\<close>

fun catch_error :: "'j thrown \<Rightarrow> 'j bi_response" where
  "catch_error (Axios_error (Some (st, d)) request) =
     json_response st (Error_body ''Server error'' (Some d))"
| "catch_error (Axios_error None request) =
     (if request then json_response 502 (Error_body ''No response from server'' None)
      else json_response 500 (Error_body ''Internal server error'' None))"
| "catch_error Other_error = json_response 500 (Error_body ''Internal server error'' None)"

text \<open>
  The route: the parsed body (\<open>None\<close>: \<open>request.json()\<close> rejects, which is not an axios
  error), the call, the relay. The second component lists the calls made.
\<close>

definition POST_bi :: "('j axios_request \<Rightarrow> 'j axios_result) \<Rightarrow> 'j option \<Rightarrow>
    'j bi_response \<times> 'j axios_request list" where
  "POST_bi axios_post parsed =
     (case parsed of
        None \<Rightarrow> (catch_error Other_error, [])
      | Some body \<Rightarrow>
          (case axios_post (bi_request body) of
             Resolved d \<Rightarrow> (json_response 200 (Relayed d), [bi_request body])
           | Rejected e \<Rightarrow> (catch_error e, [bi_request body])))"

subsection \<open>What axios puts on the wire\<close>

text \<open>
  With the content type \<open>application/json\<close>, the \<open>transformRequest\<close> of axios hands the
  data to its \<open>stringifySafely\<close>: a string that \<open>JSON.parse\<close> accepts is sent as it is,
  trimmed; every other value is sent as the text \<open>JSON.stringify\<close> gives for it. Whether
  \<open>JSON.parse\<close> accepts a string is decided by the JSON grammar: \<open>json_value\<close> and its
  helpers give the rest of the input after one value, or \<open>None\<close>. The number they take
  bounds the depth of their calls; each second call at least consumes a code unit, so twice
  the length of the input is enough.
\<close>

definition is_ws :: "16 word \<Rightarrow> bool" where
  "is_ws c \<longleftrightarrow> c = 0x20 \<or> c = 0x09 \<or> c = 0x0A \<or> c = 0x0D"

definition skip_ws :: "jsstring \<Rightarrow> jsstring" where
  "skip_ws s = dropWhile is_ws s"

definition is_digit :: "16 word \<Rightarrow> bool" where
  "is_digit c \<longleftrightarrow> 0x30 \<le> c \<and> c \<le> 0x39"

definition is_hex :: "16 word \<Rightarrow> bool" where
  "is_hex c \<longleftrightarrow> is_digit c \<or> (0x41 \<le> c \<and> c \<le> 0x46) \<or> (0x61 \<le> c \<and> c \<le> 0x66)"

text \<open>After a backslash: the quote, the backslash, the slash, or one of \<open>b f n r t\<close>.\<close>

definition is_escape :: "16 word \<Rightarrow> bool" where
  "is_escape c \<longleftrightarrow> c \<in> set [0x22, 0x5C, 0x2F, 0x62, 0x66, 0x6E, 0x72, 0x74]"

text \<open>A string, from after its opening quote (\<open>0x22\<close>) to after its closing one.\<close>

fun json_string_rest :: "jsstring \<Rightarrow> jsstring option" where
  "json_string_rest [] = None"
| "json_string_rest (c # r) =
     (if c = 0x22 then Some r
      else if c = 0x5C then
        (case r of
           [] \<Rightarrow> None
         | e # r1 \<Rightarrow>
             if is_escape e then json_string_rest r1
             else if e = 0x75 then
               (case r1 of
                  h1 # h2 # h3 # h4 # r2 \<Rightarrow>
                    if is_hex h1 \<and> is_hex h2 \<and> is_hex h3 \<and> is_hex h4
                    then json_string_rest r2 else None
                | _ \<Rightarrow> None)
             else None)
      else if c < 0x20 then None
      else json_string_rest r)"

text \<open>
  A number: an optional minus, \<open>0\<close> or digits that do not start with \<open>0\<close>, an optional
  fraction, an optional exponent.
\<close>

definition digits1 :: "jsstring \<Rightarrow> jsstring option" where
  "digits1 s =
     (case s of
        [] \<Rightarrow> None
      | c # r \<Rightarrow> if is_digit c then Some (dropWhile is_digit r) else None)"

definition int_part :: "jsstring \<Rightarrow> jsstring option" where
  "int_part s =
     (case s of
        [] \<Rightarrow> None
      | c # r \<Rightarrow> if c = 0x30 then Some r else digits1 s)"

definition frac_part :: "jsstring \<Rightarrow> jsstring option" where
  "frac_part s =
     (case s of
        [] \<Rightarrow> Some s
      | c # r \<Rightarrow> if c = 0x2E then digits1 r else Some s)"

definition exp_part :: "jsstring \<Rightarrow> jsstring option" where
  "exp_part s =
     (case s of
        [] \<Rightarrow> Some s
      | c # r \<Rightarrow>
          if c = 0x65 \<or> c = 0x45 then
            (case r of
               [] \<Rightarrow> None
             | sg # r1 \<Rightarrow> if sg = 0x2B \<or> sg = 0x2D then digits1 r1 else digits1 r)
          else Some s)"

definition json_number :: "jsstring \<Rightarrow> jsstring option" where
  "json_number s =
     (case int_part (case s of [] \<Rightarrow> s | c # r \<Rightarrow> if c = 0x2D then r else s) of
        None \<Rightarrow> None
      | Some r \<Rightarrow> (case frac_part r of None \<Rightarrow> None | Some r1 \<Rightarrow> exp_part r1))"

definition literal :: "jsstring \<Rightarrow> jsstring \<Rightarrow> jsstring option" where
  "literal word s = (if take (length word) s = word then Some (drop (length word) s) else None)"

text \<open>
  A value starts with a quote, \<open>[\<close> (\<open>0x5B\<close>), \<open>{\<close> (\<open>0x7B\<close>), the first letter of
  \<open>true\<close>, \<open>false\<close> or \<open>null\<close>, or it is a number. The elements of an array are separated by
  commas (\<open>0x2C\<close>) and closed by \<open>]\<close> (\<open>0x5D\<close>); the members of an object are a string, a
  colon (\<open>0x3A\<close>) and a value each, closed by \<open>}\<close> (\<open>0x7D\<close>).
\<close>

fun json_value :: "nat \<Rightarrow> jsstring \<Rightarrow> jsstring option"
  and json_elements :: "nat \<Rightarrow> jsstring \<Rightarrow> jsstring option"
  and json_members :: "nat \<Rightarrow> jsstring \<Rightarrow> jsstring option"
where
  "json_value 0 s = None"
| "json_value (Suc n) s =
     (case s of
        [] \<Rightarrow> None
      | c # r \<Rightarrow>
          if c = 0x22 then json_string_rest r
          else if c = 0x5B then
            (case skip_ws r of
               [] \<Rightarrow> None
             | c1 # r1 \<Rightarrow> if c1 = 0x5D then Some r1 else json_elements n (c1 # r1))
          else if c = 0x7B then
            (case skip_ws r of
               [] \<Rightarrow> None
             | c1 # r1 \<Rightarrow> if c1 = 0x7D then Some r1 else json_members n (c1 # r1))
          else if c = 0x74 then literal (js ''true'') s
          else if c = 0x66 then literal (js ''false'') s
          else if c = 0x6E then literal (js ''null'') s
          else json_number s)"
| "json_elements 0 s = None"
| "json_elements (Suc n) s =
     (case json_value n s of
        None \<Rightarrow> None
      | Some r \<Rightarrow>
          (case skip_ws r of
             [] \<Rightarrow> None
           | c # r1 \<Rightarrow>
               if c = 0x2C then json_elements n (skip_ws r1)
               else if c = 0x5D then Some r1
               else None))"
| "json_members 0 s = None"
| "json_members (Suc n) s =
     (case s of
        [] \<Rightarrow> None
      | q # r \<Rightarrow>
          if q = 0x22 then
            (case json_string_rest r of
               None \<Rightarrow> None
             | Some r1 \<Rightarrow>
                 (case skip_ws r1 of
                    [] \<Rightarrow> None
                  | c # r2 \<Rightarrow>
                      if c = 0x3A then
                        (case json_value n (skip_ws r2) of
                           None \<Rightarrow> None
                         | Some r3 \<Rightarrow>
                             (case skip_ws r3 of
                                [] \<Rightarrow> None
                              | c1 # r4 \<Rightarrow>
                                  if c1 = 0x2C then json_members n (skip_ws r4)
                                  else if c1 = 0x7D then Some r4
                                  else None))
                      else None))
          else None)"

definition json_text :: "jsstring \<Rightarrow> bool" where
  "json_text s =
     (case json_value (2 * length s + 2) (skip_ws s) of
        None \<Rightarrow> False
      | Some r \<Rightarrow> skip_ws r = [])"

text \<open>\<open>String.prototype.trim\<close>: white space and line terminators off both ends.\<close>

definition is_js_space :: "16 word \<Rightarrow> bool" where
  "is_js_space c \<longleftrightarrow>
     c \<in> set [0x09, 0x0A, 0x0B, 0x0C, 0x0D, 0x20, 0xA0, 0x1680, 0x2028, 0x2029, 0x202F,
              0x205F, 0x3000, 0xFEFF] \<or>
     (0x2000 \<le> c \<and> c \<le> 0x200A)"

definition trim :: "jsstring \<Rightarrow> jsstring" where
  "trim s = rev (dropWhile is_js_space (rev (dropWhile is_js_space s)))"

text \<open>
  The body of the outgoing request: \<open>Raw s\<close> is the code units \<open>s\<close> themselves,
  \<open>Encoded v\<close> the JSON text of the value \<open>v\<close>, which is what forwarding \<open>v\<close> unmodified
  means.
\<close>

datatype wire = Raw jsstring | Encoded jsval

definition stringifySafely :: "jsval \<Rightarrow> wire" where
  "stringifySafely rawValue =
     (case rawValue of
        Str s \<Rightarrow> if json_text s then Raw (trim s) else Encoded rawValue
      | _ \<Rightarrow> Encoded rawValue)"

definition wire_body :: "jsval axios_request \<Rightarrow> wire" where
  "wire_body r = stringifySafely (data r)"

section \<open>Concrete requests, providers and states\<close>

text \<open>
  The inputs at which the statements below are evaluated: a configured key, a request
  for a given text with the default voice, providers that answer with given bytes or with
  a failure, the state after one served request, and the state after fifty.
\<close>

definition underscore :: "16 word" where
  "underscore = of_char CHR ''_''"

definition api_key :: "jsstring option" where
  "api_key = Some (js ''sk-test'')"

definition say :: "jsstring \<Rightarrow> request_body" where
  "say t = Parsed (Obj [(js ''text'', Str t)])"

definition hello :: request_body where
  "hello = say (js ''hello'')"

definition hello_key :: jsstring where
  "hello_key = key_of default_voice_id (js ''hello'')"

definition hello_request :: upstream_request where
  "hello_request = elevenlabs_request default_voice_id (js ''sk-test'') (Str (js ''hello''))"

definition provider_a :: "upstream_request \<Rightarrow> fetch_result" where
  "provider_a req = Fetch_response 200 (Some [1])"

definition provider_b :: "upstream_request \<Rightarrow> fetch_result" where
  "provider_b req = Fetch_response 200 (Some [2])"

definition provider_503 :: "upstream_request \<Rightarrow> fetch_result" where
  "provider_503 req = Fetch_response 503 (Some [])"

definition provider_down :: "upstream_request \<Rightarrow> fetch_result" where
  "provider_down req = Fetch_rejected"

definition warm_state :: tts_state where
  "warm_state = snd (POST api_key provider_a init_state hello)"

definition filler_key :: "nat \<Rightarrow> jsstring" where
  "filler_key i = key_of default_voice_id (replicate (Suc i) 97)"

fun fill :: "nat \<Rightarrow> tts_state" where
  "fill 0 = init_state"
| "fill (Suc n) = snd (POST api_key provider_a (fill n) (say (replicate (Suc n) 97)))"

definition full_state :: tts_state where
  "full_state = fill 50"

text \<open>
  Runs of events: two requests for the same text that overlap; the same, followed by the
  expiry of the first entry, a third request, and the expiry set by the second; and a
  request that arrives at the full cache while an entry expires before its response.
\<close>

definition settle_hello :: "bytes \<Rightarrow> event" where
  "settle_hello b = Settle hello_request hello_key (Fetch_response 200 (Some b))"

definition overlap_events :: "event list" where
  "overlap_events = [Arrive hello, Arrive hello, settle_hello [1], settle_hello [2]]"

definition stale_events :: "event list" where
  "stale_events =
     [Arrive hello, Arrive hello, settle_hello [1], Tick 1000, settle_hello [2],
      Tick 300000, Fire 300000 hello_key,
      Arrive hello, settle_hello [3], Tick 301000, Fire 301000 hello_key]"


definition arrived_state :: tts_state where
  "arrived_state =
     init_state \<lparr> upstream_calls := [hello_request], in_flight := [(hello_request, hello_key)] \<rparr>"


definition question :: jsval where
  "question = Obj [(js ''question'', Str (js ''top customers''))]"

definition answer :: jsval where
  "answer = Obj [(js ''sql'', Str (js ''select 1''))]"

definition axios_ok :: "jsval axios_request \<Rightarrow> jsval axios_result" where
  "axios_ok req = Resolved answer"

definition axios_unreachable :: "jsval axios_request \<Rightarrow> jsval axios_result" where
  "axios_unreachable req = Rejected (Axios_error None True)"

definition axios_404 :: "jsval axios_request \<Rightarrow> jsval axios_result" where
  "axios_404 req = Rejected (Axios_error (Some (404, Str (js ''Not Found''))) True)"

definition axios_unsent :: "jsval axios_request \<Rightarrow> jsval axios_result" where
  "axios_unsent req = Rejected (Axios_error None False)"

section \<open>Facts about the handler's pieces\<close>

lemma get_prop_None_iff: "get_prop v name = None \<longleftrightarrow> v = Undefined \<or> v = Null"
  by (cases v) (auto split: option.splits)

lemma POST_begin_Done_Audio:
  "POST_begin env_key c body = Done (Audio b) \<Longrightarrow>
     \<exists>v t vid k. body = Parsed v \<and> destructure v = Some (t, vid) \<and> truthy t \<and>
        cacheKey vid t = Some k \<and> fmlookup c k = Some b"
  by (auto simp: POST_begin_def failed_def split: request_body.splits option.splits if_splits)

lemma POST_begin_Fetching:
  "POST_begin env_key c body = Fetching req k \<Longrightarrow>
     \<exists>v t vid apiKey voice. body = Parsed v \<and> destructure v = Some (t, vid) \<and> truthy t \<and>
        cacheKey vid t = Some k \<and> fmlookup c k = None \<and> env_key = Some apiKey \<and>
        apiKey \<noteq> [] \<and> ToString vid = Some voice \<and> req = elevenlabs_request voice apiKey t"
  by (auto simp: POST_begin_def failed_def split: request_body.splits option.splits if_splits)

lemma POST_begin_hit:
  "destructure v = Some (t, vid) \<Longrightarrow> truthy t \<Longrightarrow> cacheKey vid t = Some k \<Longrightarrow>
   fmlookup c k = Some b \<Longrightarrow> POST_begin env_key c (Parsed v) = Done (Audio b)"
  by (simp add: POST_begin_def)

lemma POST_begin_miss:
  "destructure v = Some (t, vid) \<Longrightarrow> truthy t \<Longrightarrow> cacheKey vid t = Some k \<Longrightarrow>
   fmlookup c k = None \<Longrightarrow> apiKey \<noteq> [] \<Longrightarrow> ToString vid = Some voice \<Longrightarrow>
   POST_begin (Some apiKey) c (Parsed v) = Fetching (elevenlabs_request voice apiKey t) k"
  by (simp add: POST_begin_def)

lemma POST_resume_Audio:
  "POST_resume s k r = (Audio b, s1) \<Longrightarrow>
     \<exists>st. r = Fetch_response st (Some b) \<and> ok st \<and> s1 = store k b s"
  by (auto simp: POST_resume_def failed_def split: fetch_result.splits option.splits if_splits)

lemma POST_resume_cache:
  "ttsCache (snd (POST_resume s k r)) \<noteq> ttsCache s \<Longrightarrow>
     \<exists>st b. r = Fetch_response st (Some b) \<and> ok st \<and> cache_size (ttsCache s) < MAX_CACHE_SIZE"
  by (auto simp: POST_resume_def store_def split: fetch_result.splits option.splits if_splits)


lemma POST_as_step:
  "POST_begin env_key (ttsCache s) body = Done r \<Longrightarrow>
   run env_key [Arrive body] s = Some (snd (POST env_key fetch s body))"
  by (simp add: POST_def)

subsection \<open>The size bound along every event\<close>

lemma empty_size: "cache_size fmempty = 0"
  by (simp add: cache_size_def fcard_fempty)

lemma cache_size_card: "cache_size c = card (fmdom' c)"
  by (simp add: cache_size_def fmdom'_alt_def fcard.rep_eq)







subsection \<open>What an entry outlasts\<close>

lemma step_clock_mono: "step env_key e s = Some s' \<Longrightarrow> clock s \<le> clock s'"
  by (cases e)
     (auto simp: POST_resume_def store_def expire_def fire_def
           split: begun.splits if_splits fetch_result.splits option.splits)

lemma run_clock_mono: "run env_key es s = Some s' \<Longrightarrow> clock s \<le> clock s'"
proof (induction es arbitrary: s)
  case Nil
  then show ?case by simp
next
  case (Cons e es)
  then show ?case by (fastforce split: option.splits dest: step_clock_mono)
qed

text \<open>
  Before \<open>due\<close> no event ends a kept entry: a request for its key is a hit and issues no
  call, a response for another key stores under that key, and a timer that can fire is
  due now, so it is not a timer for this key.
\<close>

lemma step_kept:
  assumes "kept k b due s" and "step env_key e s = Some s'" and "clock s' < due"
  shows "kept k b due s'"
proof (cases e)
  case (Arrive body)
  show ?thesis
  proof (cases "POST_begin env_key (ttsCache s) body")
    case (Done r)
    with Arrive assms show ?thesis by simp
  next
    case (Fetching req k')
    then have "fmlookup (ttsCache s) k' = None"
      by (auto dest: POST_begin_Fetching)
    with assms(1) have "k' \<noteq> k" by (auto simp: kept_def)
    with Arrive Fetching assms show ?thesis by (auto simp: kept_def)
  qed
next
  case (Settle req k' r)
  with assms(2) have inflight: "(req, k') \<in> set (in_flight s)"
    and s': "s' = snd (POST_resume (s \<lparr> in_flight := remove1 (req, k') (in_flight s) \<rparr>) k' r)"
    by (auto split: if_splits)
  from inflight assms(1) have "k' \<noteq> k" by (force simp: kept_def)
  moreover have "set (remove1 (req, k') (in_flight s)) \<subseteq> set (in_flight s)"
    by (rule set_remove1_subset)
  ultimately show ?thesis using assms(1) s'
    by (auto simp: kept_def POST_resume_def store_def split: fetch_result.splits option.splits)
next
  case (Fire d k')
  with assms(2) have due: "d \<le> clock s" and s': "s' = fire d k' s"
    by (auto split: if_splits)
  from s' have "clock s' = clock s" by (simp add: fire_def expire_def)
  with assms(3) due have "d < due" by simp
  moreover have "(d, k') \<in> set (timers s)" using Fire assms(2) by (auto split: if_splits)
  ultimately have "k' \<noteq> k" using assms(1) by (auto simp: kept_def)
  moreover have "set (remove1 (d, k') (timers s)) \<subseteq> set (timers s)"
    by (rule set_remove1_subset)
  ultimately show ?thesis using assms(1) s'
    by (auto simp: kept_def fire_def expire_def)
next
  case (Tick t)
  with assms show ?thesis by (auto simp: kept_def split: if_splits)
qed

lemma run_kept:
  "kept k b due s \<Longrightarrow> run env_key es s = Some s' \<Longrightarrow> clock s' < due \<Longrightarrow> kept k b due s'"
proof (induction es arbitrary: s)
  case Nil
  then show ?case by simp
next
  case (Cons e es)
  then obtain sm where e: "step env_key e s = Some sm" and es: "run env_key es sm = Some s'"
    by (auto split: option.splits)
  from es have "clock sm \<le> clock s'" by (rule run_clock_mono)
  with Cons.prems(3) have "clock sm < due" by simp
  with Cons.prems(1) e have "kept k b due sm" by (rule step_kept)
  then show ?case using es Cons.prems(3) by (rule Cons.IH)
qed

text \<open>A timer stays pending until its own callback runs.\<close>

lemma step_timer_pending:
  "step env_key e s = Some s' \<Longrightarrow> (due, k) \<in> set (timers s) \<Longrightarrow> e \<noteq> Fire due k \<Longrightarrow>
   (due, k) \<in> set (timers s')"
  by (cases e)
     (auto simp: POST_resume_def store_def expire_def fire_def
           split: begun.splits if_splits fetch_result.splits option.splits)

lemma run_timer_pending:
  "run env_key es s = Some s' \<Longrightarrow> (due, k) \<in> set (timers s) \<Longrightarrow> Fire due k \<notin> set es \<Longrightarrow>
   (due, k) \<in> set (timers s')"
proof (induction es arbitrary: s)
  case Nil
  then show ?case by simp
next
  case (Cons e es)
  then show ?case by (auto split: option.splits dest: step_timer_pending)
qed

subsection \<open>The cache key\<close>

lemma js_underscore: "js ''_'' = [underscore]"
  by (simp add: js_def underscore_def)

lemma cacheKey_Str: "cacheKey (Str voice) (Str t) = Some (key_of voice (take 100 t))"
  by (simp add: cacheKey_def)

lemma key_of_same_voice: "key_of voice p = key_of voice q \<longleftrightarrow> p = q"
  by (simp add: key_of_def)

lemma key_of_inj:
  "underscore \<notin> set v1 \<Longrightarrow> underscore \<notin> set v2 \<Longrightarrow>
   key_of v1 p1 = key_of v2 p2 \<longleftrightarrow> v1 = v2 \<and> p1 = p2"
  by (auto simp: key_of_def js_underscore append_eq_append_conv2 append_eq_Cons_conv
        Cons_eq_append_conv)

subsection \<open>The concrete states\<close>

lemma init_state_fields:
  "ttsCache init_state = fmempty" "timers init_state = []" "clock init_state = 0"
  "upstream_calls init_state = []" "in_flight init_state = []"
  by (simp_all add: init_state_def)

lemma destructure_say:
  "destructure (Obj [(js ''text'', Str t)]) = Some (Str t, Str default_voice_id)"
  by (simp add: destructure_def js_def)

lemma POST_say:
  assumes "t \<noteq> []"
  shows "POST api_key fetch s (say t) =
     (case fmlookup (ttsCache s) (key_of default_voice_id (take 100 t)) of
        Some a \<Rightarrow> (Audio a, s)
      | None \<Rightarrow>
          POST_resume
            (s \<lparr> upstream_calls := upstream_calls s @
                  [elevenlabs_request default_voice_id (js ''sk-test'') (Str t)] \<rparr>)
            (key_of default_voice_id (take 100 t))
            (fetch (elevenlabs_request default_voice_id (js ''sk-test'') (Str t))))"
proof -
  have "js ''sk-test'' \<noteq> []" by (simp add: js_def)
  with assms show ?thesis
    by (simp add: POST_def POST_begin_def say_def destructure_say cacheKey_Str api_key_def
             split: option.splits)
qed

lemma hello_text: "js ''hello'' \<noteq> []" "take 100 (js ''hello'') = js ''hello''"
  by (simp_all add: js_def)

lemma hello_fields:
  "destructure (Obj [(js ''text'', Str (js ''hello''))]) =
     Some (Str (js ''hello''), Str default_voice_id)"
  by (rule destructure_say)

lemma hello_cacheKey: "cacheKey (Str default_voice_id) (Str (js ''hello'')) = Some hello_key"
  by (simp add: cacheKey_Str hello_text hello_key_def)

lemma hello_begin:
  "POST_begin api_key fmempty hello = Fetching hello_request hello_key"
proof -
  have "js ''sk-test'' \<noteq> []" by (simp add: js_def)
  then show ?thesis
    using hello_text(1)
    by (simp add: hello_def say_def api_key_def hello_request_def
          POST_begin_miss [OF hello_fields _ hello_cacheKey])
qed

lemma warm_state_eq:
  "POST api_key provider_a init_state hello =
     (Audio [1],
      init_state \<lparr> ttsCache := fmupd hello_key [1] fmempty,
                   timers := [(CACHE_TTL, hello_key)],
                   upstream_calls := [hello_request] \<rparr>)"
  by (simp add: hello_def POST_say hello_text init_state_def POST_resume_def provider_a_def ok_def
        store_def empty_size MAX_CACHE_SIZE_def hello_key_def hello_request_def)

lemma warm_state_fields:
  "ttsCache warm_state = fmupd hello_key [1] fmempty"
  "timers warm_state = [(CACHE_TTL, hello_key)]"
  "clock warm_state = 0"
  "upstream_calls warm_state = [hello_request]"
  "in_flight warm_state = []"
  using warm_state_eq by (simp_all add: warm_state_def init_state_def)

lemma hello_first:
  "POST api_key provider_a init_state (Parsed (Obj [(js ''text'', Str (js ''hello''))])) =
     (Audio [1], warm_state)"
  using warm_state_eq by (simp add: warm_state_def hello_def say_def)

lemma inj_filler_key: "inj filler_key"
  by (auto simp: inj_on_def filler_key_def key_of_same_voice dest: arg_cong [where f = length])

text \<open>Fifty requests for fifty texts fill the cache with fifty entries.\<close>

lemma fill_dom: "n \<le> 50 \<Longrightarrow> fmdom' (ttsCache (fill n)) = filler_key ` {..<n}"
proof (induction n)
  case 0
  then show ?case by (simp add: init_state_def)
next
  case (Suc n)
  then have dom: "fmdom' (ttsCache (fill n)) = filler_key ` {..<n}" and n: "n < 50"
    by simp_all
  have "filler_key n \<notin> filler_key ` {..<n}"
    using inj_filler_key by (auto simp: inj_on_def)
  with dom have miss: "fmlookup (ttsCache (fill n)) (filler_key n) = None"
    by (simp add: fmdom'_notD)
  have "card (filler_key ` {..<n}) = n"
    using inj_filler_key by (simp add: card_image inj_on_def)
  with dom n have room: "cache_size (ttsCache (fill n)) < MAX_CACHE_SIZE"
    by (simp add: cache_size_card MAX_CACHE_SIZE_def)
  have "ttsCache (fill (Suc n)) = fmupd (filler_key n) [1] (ttsCache (fill n))"
    using miss room n
    by (simp add: POST_say filler_key_def POST_resume_def provider_a_def ok_def store_def)
  with dom show ?case by (simp add: lessThan_Suc)
qed

lemma full_state_size: "cache_size (ttsCache full_state) = MAX_CACHE_SIZE"
  using inj_filler_key
  by (simp add: full_state_def cache_size_card fill_dom card_image inj_on_def MAX_CACHE_SIZE_def)

lemma full_state_miss:
  assumes "hd t \<noteq> 97" and "t \<noteq> []"
  shows "fmlookup (ttsCache full_state) (key_of default_voice_id t) = None"
proof -
  have "key_of default_voice_id t \<notin> filler_key ` {..<50}"
    using assms by (cases t) (auto simp: filler_key_def key_of_same_voice)
  then have "key_of default_voice_id t \<notin> fmdom' (ttsCache (fill 50))"
    by (simp add: fill_dom)
  then show ?thesis by (simp add: full_state_def fmdom'_notD)
qed

lemma full_state_hello: "fmlookup (ttsCache full_state) hello_key = None"
  unfolding hello_key_def by (rule full_state_miss) (simp_all add: js_def)

lemma full_state_first:
  "POST api_key provider_a full_state hello =
     (Audio [1], full_state \<lparr> upstream_calls := upstream_calls full_state @ [hello_request] \<rparr>)"
  using full_state_hello full_state_size hello_text
  by (simp add: hello_def hello_key_def hello_request_def POST_say POST_resume_def provider_a_def
        ok_def store_def)

lemma full_state_second:
  "POST api_key provider_b
      (full_state \<lparr> upstream_calls := upstream_calls full_state @ [hello_request] \<rparr>) hello =
     (Audio [2],
      full_state \<lparr> upstream_calls := upstream_calls full_state @ [hello_request, hello_request] \<rparr>)"
  using full_state_hello full_state_size hello_text
  by (simp add: hello_def hello_key_def hello_request_def POST_say POST_resume_def provider_b_def
        ok_def store_def)

subsection \<open>The runs of events\<close>

lemma POST_begin_hello:
  "POST_begin api_key c hello =
     (case fmlookup c hello_key of
        Some a \<Rightarrow> Done (Audio a)
      | None \<Rightarrow> Fetching hello_request hello_key)"
proof -
  have "js ''sk-test'' \<noteq> []" by (simp add: js_def)
  then show ?thesis
    using hello_text(1)
    by (simp add: POST_begin_def hello_def say_def hello_fields hello_cacheKey api_key_def
          hello_request_def split: option.splits)
qed

lemma POST_hello:
  "POST api_key fetch s hello =
     (case fmlookup (ttsCache s) hello_key of
        Some a \<Rightarrow> (Audio a, s)
      | None \<Rightarrow>
          POST_resume (s \<lparr> upstream_calls := upstream_calls s @ [hello_request] \<rparr>) hello_key
            (fetch hello_request))"
  by (simp add: POST_def POST_begin_hello split: option.splits)

lemma ok_200: "ok 200"
  by (simp add: ok_def)

lemma size_one: "cache_size (fmupd k b fmempty) = 1"
  by (simp add: cache_size_def fcard_finsert_if)

lemma overlap_run:
  "run api_key overlap_events init_state =
     Some \<lparr> ttsCache = fmupd hello_key [2] fmempty,
            timers = [(CACHE_TTL, hello_key), (CACHE_TTL, hello_key)],
            clock = 0,
            upstream_calls = [hello_request, hello_request],
            in_flight = [] \<rparr>"
  by (simp add: overlap_events_def settle_hello_def init_state_def POST_begin_hello
        POST_resume_def ok_200 store_def empty_size size_one MAX_CACHE_SIZE_def)

lemma stale_run:
  "run api_key stale_events init_state =
     Some \<lparr> ttsCache = fmempty,
            timers = [(600000, hello_key)],
            clock = 301000,
            upstream_calls = [hello_request, hello_request, hello_request],
            in_flight = [] \<rparr>"
  by (simp add: stale_events_def settle_hello_def init_state_def POST_begin_hello
        POST_resume_def ok_200 store_def empty_size size_one MAX_CACHE_SIZE_def CACHE_TTL_def
        fire_def expire_def fmdrop_fmupd_same)






subsection \<open>The JSON grammar\<close>

text \<open>Every value consumes input.\<close>

lemma skip_ws_len: "length (skip_ws s) \<le> length s"
  by (simp add: skip_ws_def length_dropWhile_le)

lemma json_string_rest_len: "json_string_rest s = Some r \<Longrightarrow> length r < length s"
  by (induction s arbitrary: r rule: json_string_rest.induct)
     (fastforce split: if_splits list.splits)+

lemma digits1_len: "digits1 s = Some r \<Longrightarrow> length r < length s"
  using length_dropWhile_le [of is_digit "tl s"]
  by (auto simp: digits1_def split: list.splits if_splits)

lemma json_number_len: "json_number s = Some r \<Longrightarrow> length r < length s"
  by (auto simp: json_number_def int_part_def frac_part_def exp_part_def
        split: list.splits if_splits option.splits dest!: digits1_len)

lemma literal_len: "literal w s = Some r \<Longrightarrow> w \<noteq> [] \<Longrightarrow> length r < length s"
  by (cases s) (auto simp: literal_def split: if_splits)

lemma js_literals: "js ''true'' \<noteq> []" "js ''false'' \<noteq> []" "js ''null'' \<noteq> []"
  by (simp_all add: js_def)

lemma json_len:
  "(\<forall>s r. json_value n s = Some r \<longrightarrow> length r < length s) \<and>
   (\<forall>s r. json_elements n s = Some r \<longrightarrow> length r < length s) \<and>
   (\<forall>s r. json_members n s = Some r \<longrightarrow> length r < length s)"
proof (induction n)
  case 0
  then show ?case by simp
next
  case (Suc n)
  have v: "length r < length s" if "json_value (Suc n) s = Some r" for s r
  proof (cases s)
    case Nil
    with that show ?thesis by simp
  next
    case (Cons c t)
    have le: "length (skip_ws t) \<le> length t" by (rule skip_ws_len)
    from that Cons le Suc show ?thesis
      by (auto split: if_splits list.splits
            dest!: json_string_rest_len json_number_len literal_len [OF _ js_literals(1)]
              literal_len [OF _ js_literals(2)] literal_len [OF _ js_literals(3)])
         (force+)?
  qed
  have e: "length r < length s" if "json_elements (Suc n) s = Some r" for s r
  proof -
    from that obtain r0 c r1 where r0: "json_value n s = Some r0"
      and sk: "skip_ws r0 = c # r1"
      and rest: "(c = 0x2C \<and> json_elements n (skip_ws r1) = Some r) \<or> (c = 0x5D \<and> r = r1)"
      by (auto split: option.splits list.splits if_splits)
    from r0 Suc have "length r0 < length s" by blast
    moreover from sk have "length r1 < length r0"
      using skip_ws_len [of r0] by simp
    moreover have "length (skip_ws r1) \<le> length r1" by (rule skip_ws_len)
    moreover from rest Suc have "length r \<le> length r1"
      by (metis less_or_eq_imp_le order_less_le_trans calculation(3))
    ultimately show ?thesis by simp
  qed
  have m: "length r < length s" if "json_members (Suc n) s = Some r" for s r
  proof -
    from that obtain t r1 c r2 r3 c1 r4 where s: "s = 0x22 # t"
      and r1: "json_string_rest t = Some r1" and sk1: "skip_ws r1 = c # r2"
      and r3: "json_value n (skip_ws r2) = Some r3" and sk3: "skip_ws r3 = c1 # r4"
      and rest: "(c1 = 0x2C \<and> json_members n (skip_ws r4) = Some r) \<or> (c1 = 0x7D \<and> r = r4)"
      by (auto split: option.splits list.splits if_splits)
    from r1 have "length r1 < length t" by (rule json_string_rest_len)
    moreover from sk1 have "length r2 < length r1" using skip_ws_len [of r1] by simp
    moreover have "length (skip_ws r2) \<le> length r2" by (rule skip_ws_len)
    moreover from r3 Suc have "length r3 < length (skip_ws r2)" by blast
    moreover from sk3 have "length r4 < length r3" using skip_ws_len [of r3] by simp
    moreover have "length (skip_ws r4) \<le> length r4" by (rule skip_ws_len)
    moreover from rest Suc have "length r \<le> length r4"
      by (metis less_or_eq_imp_le order_less_le_trans calculation(6))
    ultimately show ?thesis using s by simp
  qed
  from v e m show ?case by blast
qed

text \<open>
  So the bound on the depth is never what makes a text fail: from twice the length of the
  input on, more changes nothing.
\<close>

lemma json_value_len: "json_value n s = Some r \<Longrightarrow> length r < length s"
  using json_len by blast

lemma json_fuel:
  "(\<forall>n m. 2 * length s + 1 \<le> n \<and> 2 * length s + 1 \<le> m \<longrightarrow> json_value n s = json_value m s) \<and>
   (\<forall>n m. 2 * length s + 2 \<le> n \<and> 2 * length s + 2 \<le> m \<longrightarrow>
      json_elements n s = json_elements m s) \<and>
   (\<forall>n m. 2 * length s + 2 \<le> n \<and> 2 * length s + 2 \<le> m \<longrightarrow>
      json_members n s = json_members m s)"
proof (induction s rule: length_induct)
  case (1 s)
  have ih_e: "json_elements n t = json_elements m t"
    if "length t < length s" "2 * length t + 2 \<le> n" "2 * length t + 2 \<le> m" for t n m
    using 1 that by blast
  have ih_m: "json_members n t = json_members m t"
    if "length t < length s" "2 * length t + 2 \<le> n" "2 * length t + 2 \<le> m" for t n m
    using 1 that by blast
  have ih_v: "json_value n t = json_value m t"
    if "length t < length s" "2 * length t + 1 \<le> n" "2 * length t + 1 \<le> m" for t n m
    using 1 that by blast
  have v: "json_value n s = json_value m s"
    if "2 * length s + 1 \<le> n" "2 * length s + 1 \<le> m" for n m
  proof -
    from that obtain n' m' where n: "n = Suc n'" and m: "m = Suc m'"
      and n': "2 * length s \<le> n'" and m': "2 * length s \<le> m'"
      by (cases n; cases m) auto
    show ?thesis
    proof (cases s)
      case Nil
      then show ?thesis by (simp add: n m)
    next
      case (Cons c t)
      have len: "length (skip_ws t) < length s" "2 * length (skip_ws t) + 2 \<le> n'"
          "2 * length (skip_ws t) + 2 \<le> m'"
        using skip_ws_len [of t] Cons n' m' by simp_all
      have "json_elements n' (skip_ws t) = json_elements m' (skip_ws t)"
          "json_members n' (skip_ws t) = json_members m' (skip_ws t)"
        using len by (rule ih_e, rule ih_m)
      then show ?thesis
        unfolding n m Cons json_value.simps list.case
        by (cases "skip_ws t") simp_all
    qed
  qed
  have e: "json_elements n s = json_elements m s"
    if "2 * length s + 2 \<le> n" "2 * length s + 2 \<le> m" for n m
  proof -
    from that obtain n' m' where n: "n = Suc n'" and m: "m = Suc m'"
      and n': "2 * length s + 1 \<le> n'" and m': "2 * length s + 1 \<le> m'"
      by (cases n; cases m) auto
    have same: "json_value n' s = json_value m' s"
      using n' m' by (rule v)
    have "json_elements n' (skip_ws r1) = json_elements m' (skip_ws r1)"
      if "json_value m' s = Some r" "skip_ws r = c # r1" for r c r1
    proof -
      from that(1) have "length r < length s" by (rule json_value_len)
      moreover from that(2) have "length r1 < length r" using skip_ws_len [of r] by simp
      moreover have "length (skip_ws r1) \<le> length r1" by (rule skip_ws_len)
      ultimately have "length (skip_ws r1) < length s" "2 * length (skip_ws r1) + 2 \<le> n'"
          "2 * length (skip_ws r1) + 2 \<le> m'"
        using n' m' by simp_all
      then show ?thesis by (rule ih_e)
    qed
    note tail = this
    show ?thesis
    proof (cases "json_value m' s")
      case None
      then show ?thesis by (simp add: n m same)
    next
      case (Some r)
      show ?thesis
      proof (cases "skip_ws r")
        case Nil
        with Some show ?thesis by (simp add: n m same)
      next
        case (Cons c r1)
        with Some have "json_elements n' (skip_ws r1) = json_elements m' (skip_ws r1)"
          by (rule tail)
        with Some Cons show ?thesis by (simp add: n m same)
      qed
    qed
  qed
  have mm: "json_members n s = json_members m s"
    if "2 * length s + 2 \<le> n" "2 * length s + 2 \<le> m" for n m
  proof -
    from that obtain n' m' where n: "n = Suc n'" and m: "m = Suc m'"
      and n': "2 * length s + 1 \<le> n'" and m': "2 * length s + 1 \<le> m'"
      by (cases n; cases m) auto
    have val: "json_value n' (skip_ws r2) = json_value m' (skip_ws r2)"
      if "s = q # t" "json_string_rest t = Some r1" "skip_ws r1 = c # r2" for q t r1 c r2
    proof -
      from that(2) have "length r1 < length t" by (rule json_string_rest_len)
      moreover from that(3) have "length r2 < length r1" using skip_ws_len [of r1] by simp
      moreover have "length (skip_ws r2) \<le> length r2" by (rule skip_ws_len)
      ultimately have "length (skip_ws r2) < length s" "2 * length (skip_ws r2) + 1 \<le> n'"
          "2 * length (skip_ws r2) + 1 \<le> m'"
        using n' m' that(1) by simp_all
      then show ?thesis by (rule ih_v)
    qed
    have mem: "json_members n' (skip_ws r4) = json_members m' (skip_ws r4)"
      if "s = q # t" "json_string_rest t = Some r1" "skip_ws r1 = c # r2"
        "json_value m' (skip_ws r2) = Some r3" "skip_ws r3 = c1 # r4" for q t r1 c r2 r3 c1 r4
    proof -
      from that(2) have "length r1 < length t" by (rule json_string_rest_len)
      moreover from that(3) have "length r2 < length r1" using skip_ws_len [of r1] by simp
      moreover have "length (skip_ws r2) \<le> length r2" by (rule skip_ws_len)
      moreover from that(4) have "length r3 < length (skip_ws r2)" by (rule json_value_len)
      moreover from that(5) have "length r4 < length r3" using skip_ws_len [of r3] by simp
      moreover have "length (skip_ws r4) \<le> length r4" by (rule skip_ws_len)
      ultimately have "length (skip_ws r4) < length s" "2 * length (skip_ws r4) + 2 \<le> n'"
          "2 * length (skip_ws r4) + 2 \<le> m'"
        using n' m' that(1) by simp_all
      then show ?thesis by (rule ih_m)
    qed
    show ?thesis
    proof (cases s)
      case Nil
      then show ?thesis by (simp add: n m)
    next
      case s: (Cons q t)
      show ?thesis
      proof (cases "json_string_rest t")
        case None
        with s show ?thesis by (simp add: n m)
      next
        case r1: (Some r1)
        show ?thesis
        proof (cases "skip_ws r1")
          case Nil
          with s r1 show ?thesis by (simp add: n m)
        next
          case sk1: (Cons c r2)
          from s r1 sk1 have same: "json_value n' (skip_ws r2) = json_value m' (skip_ws r2)"
            by (rule val)
          show ?thesis
          proof (cases "json_value m' (skip_ws r2)")
            case None
            with s r1 sk1 show ?thesis by (simp add: n m same)
          next
            case r3: (Some r3)
            show ?thesis
            proof (cases "skip_ws r3")
              case Nil
              with s r1 sk1 r3 show ?thesis by (simp add: n m same)
            next
              case sk3: (Cons c1 r4)
              from s r1 sk1 r3 sk3
              have "json_members n' (skip_ws r4) = json_members m' (skip_ws r4)"
                by (rule mem)
              with s r1 sk1 r3 sk3 show ?thesis by (simp add: n m same)
            qed
          qed
        qed
      qed
    qed
  qed
  from v e mm show ?case by blast
qed

lemma json_text_fuel:
  "2 * length s + 2 \<le> n \<Longrightarrow> json_value n (skip_ws s) = json_value (2 * length s + 2) (skip_ws s)"
proof -
  assume n: "2 * length s + 2 \<le> n"
  have "length (skip_ws s) \<le> length s" by (rule skip_ws_len)
  with n have "2 * length (skip_ws s) + 1 \<le> n" "2 * length (skip_ws s) + 1 \<le> 2 * length s + 2"
    by simp_all
  then show ?thesis using json_fuel [of "skip_ws s"] by blast
qed

section \<open>The speech-synthesis route: what holds\<close>

subsection \<open>A repeated request\<close>

text \<open>
  C1, with the conditions under which the entry is stored and lasts. Let a request miss
  the cache and call the provider, and let the successful response with the audio \<open>b\<close>
  arrive while the cache holds fewer than \<open>MAX_CACHE_SIZE\<close> entries, no other call for the
  same key awaits its response, and no timer for the key is pending from an earlier store.
  The request is answered with \<open>b\<close>. Then, whatever happens in between (requests,
  responses, timers, the clock), a request with the same \<open>text\<close> and \<open>voice_id\<close> handled
  less than \<open>CACHE_TTL\<close> after that response is answered with the identical audio \<open>b\<close>
  and leaves the whole state as it was: no call to the provider is logged, whatever the
  provider would have answered.
\<close>

theorem C1_repeat_within_ttl:
  assumes arrive: "POST_begin env_key cache0 (Parsed v) = Fetching req k"
    and settle: "step env_key (Settle req k (Fetch_response st (Some b))) s = Some s1"
    and ok: "ok st"
    and room: "cache_size (ttsCache s) < MAX_CACHE_SIZE"
    and alone: "k \<notin> snd ` set (in_flight s1)"
    and no_timer: "k \<notin> snd ` set (timers s)"
    and between: "run env_key evs s1 = Some s2"
    and within: "clock s2 < clock s + CACHE_TTL"
    and same: "destructure v' = destructure v"
  shows "fst (POST_resume (s \<lparr> in_flight := remove1 (req, k) (in_flight s) \<rparr>) k
             (Fetch_response st (Some b))) = Audio b \<and>
         POST env_key' fetch' s2 (Parsed v') = (Audio b, s2)"
proof -
  obtain t vid where fields: "destructure v = Some (t, vid)" and t: "truthy t"
    and key: "cacheKey vid t = Some k"
    using arrive by (auto dest: POST_begin_Fetching)
  let ?s = "s \<lparr> in_flight := remove1 (req, k) (in_flight s) \<rparr>"
  from settle have s1: "s1 = snd (POST_resume ?s k (Fetch_response st (Some b)))"
    by (auto split: if_splits)
  with ok room have s1': "s1 = ?s \<lparr> ttsCache := fmupd k b (ttsCache s),
        timers := timers s @ [(clock s + CACHE_TTL, k)] \<rparr>"
    by (simp add: POST_resume_def store_def)
  have "kept k b (clock s + CACHE_TTL) s1"
    using alone no_timer by (force simp: kept_def s1')
  with between within have "kept k b (clock s + CACHE_TTL) s2"
    by (simp add: run_kept)
  then have "fmlookup (ttsCache s2) k = Some b"
    by (simp add: kept_def)
  with fields t key same have "POST env_key' fetch' s2 (Parsed v') = (Audio b, s2)"
    by (simp add: POST_def POST_begin_hit)
  moreover have "fst (POST_resume ?s k (Fetch_response st (Some b))) = Audio b"
    using ok by (simp add: POST_resume_def)
  ultimately show ?thesis by simp
qed

text \<open>
  An instance: the first request into the empty cache, its response at time 0, the clock
  one millisecond short of the TTL, the same request twice; the provider would now answer
  with other bytes.
\<close>

theorem C1_repeat_within_ttl_witness:
  "POST api_key provider_b (warm_state \<lparr> clock := 299999 \<rparr>) hello =
     (Audio [1], warm_state \<lparr> clock := 299999 \<rparr>)"
proof -
  have arrive: "POST_begin api_key fmempty (Parsed (Obj [(js ''text'', Str (js ''hello''))])) =
      Fetching hello_request hello_key"
    using hello_begin by (simp add: hello_def say_def)
  have warm: "warm_state = arrived_state
      \<lparr> in_flight := [], ttsCache := fmupd hello_key [1] fmempty,
        timers := [(CACHE_TTL, hello_key)] \<rparr>"
    using warm_state_eq by (simp add: warm_state_def arrived_state_def init_state_def)
  have settle: "step api_key (Settle hello_request hello_key (Fetch_response 200 (Some [1])))
      arrived_state = Some warm_state"
    by (simp add: warm arrived_state_def init_state_def POST_resume_def ok_200 store_def
          empty_size MAX_CACHE_SIZE_def)
  have room: "cache_size (ttsCache arrived_state) < MAX_CACHE_SIZE"
    by (simp add: arrived_state_def init_state_def empty_size MAX_CACHE_SIZE_def)
  have alone: "hello_key \<notin> snd ` set (in_flight warm_state)"
    by (simp add: warm_state_fields)
  have no_timer: "hello_key \<notin> snd ` set (timers arrived_state)"
    by (simp add: arrived_state_def init_state_def)
  have between: "run api_key [Tick 299999, Arrive hello] warm_state =
      Some (warm_state \<lparr> clock := 299999 \<rparr>)"
    by (simp add: warm_state_fields POST_begin_hello)
  have within: "clock (warm_state \<lparr> clock := 299999 \<rparr>) < clock arrived_state + CACHE_TTL"
    by (simp add: arrived_state_def init_state_def CACHE_TTL_def)
  show ?thesis
    using C1_repeat_within_ttl
      [OF arrive settle ok_200 room alone no_timer between within refl, of api_key provider_b]
    by (simp add: hello_def say_def)
qed

text \<open>
  Without the condition the statement fails. With fifty entries in the cache the request
  is answered but not stored, the same request again calls the provider a second time, and
  the caller gets what the provider answers then.
\<close>

theorem repeat_with_full_cache_counterexample:
  "fst (POST api_key provider_a full_state hello) = Audio [1] \<and>
   fst (POST api_key provider_b (snd (POST api_key provider_a full_state hello)) hello) =
     Audio [2] \<and>
   upstream_calls
     (snd (POST api_key provider_b (snd (POST api_key provider_a full_state hello)) hello)) =
     upstream_calls full_state @ [hello_request, hello_request]"
  by (simp add: full_state_first full_state_second)

text \<open>
  Nor can the other two conditions go. When two requests for the same text overlap, both
  miss and both call the provider; the first is answered with the bytes \<open>[1]\<close>, the
  response to the second overwrites the entry, and a request that follows gets \<open>[2]\<close>.
\<close>

theorem overlapping_requests_counterexample:
  "reply_after api_key overlap_events init_state provider_down hello = Some (Audio [2]) \<and>
   calls_after api_key overlap_events init_state provider_down hello = Some 2"
  by (simp add: reply_after_def calls_after_def overlap_run POST_hello)

text \<open>
  The second of two such stores leaves a timer behind that outlives the first expiry. A
  third request, stored at time 300000 with the bytes \<open>[3]\<close>, loses its entry to that
  timer at time 301000, and the same request then calls the provider a fourth time and
  gets what it answers then.
\<close>

theorem stale_timer_counterexample:
  "clock_after api_key stale_events init_state = Some 301000 \<and>
   reply_after api_key stale_events init_state provider_b hello = Some (Audio [2]) \<and>
   calls_after api_key stale_events init_state provider_b hello = Some 4"
  by (simp add: reply_after_def calls_after_def clock_after_def stale_run POST_hello
       POST_resume_def provider_b_def ok_200 store_def empty_size MAX_CACHE_SIZE_def)

subsection \<open>The bound on the cache\<close>




subsection \<open>Expiry\<close>

text \<open>
  C9. When a request stores an entry, it sets a timer for that entry's key due
  \<open>CACHE_TTL\<close> = 300000 milliseconds (5 minutes) after the store. In every run from
  there in which this timer has not fired yet, once the clock has reached that time the
  step that fires it can be taken; it deletes the entry under that key and no other, so
  that the key is absent right after it, and the same request handled then misses the
  cache and calls the provider again.
\<close>

theorem C9_expiry_removes_entry:
  assumes fields: "destructure v = Some (t, vid)"
    and key: "cacheKey vid t = Some k"
    and first: "POST env_key fetch s (Parsed v) = (r, s1)"
    and stored: "ttsCache s1 \<noteq> ttsCache s"
    and later: "run env_key evs s1 = Some s2"
    and pending: "Fire (clock s + CACHE_TTL) k \<notin> set evs"
    and elapsed: "clock s + CACHE_TTL \<le> clock s2"
  shows "CACHE_TTL = 300000 \<and>
         timers s1 = timers s @ [(clock s + CACHE_TTL, k)] \<and>
         step env_key (Fire (clock s + CACHE_TTL) k) s2 =
           Some (fire (clock s + CACHE_TTL) k s2) \<and>
         ttsCache (fire (clock s + CACHE_TTL) k s2) = fmdrop k (ttsCache s2) \<and>
         fmlookup (ttsCache (fire (clock s + CACHE_TTL) k s2)) k = None \<and>
         length (upstream_calls
             (snd (POST env_key fetch' (fire (clock s + CACHE_TTL) k s2) (Parsed v)))) =
           Suc (length (upstream_calls s2))"
proof -
  obtain req k' where begun: "POST_begin env_key (ttsCache s) (Parsed v) = Fetching req k'"
    using first stored
    by (cases "POST_begin env_key (ttsCache s) (Parsed v)") (auto simp: POST_def)
  then obtain apiKey voice where k': "k' = k" and t: "truthy t"
    and env: "env_key = Some apiKey" "apiKey \<noteq> []"
    and voice: "ToString vid = Some voice"
    using fields key by (auto dest: POST_begin_Fetching)
  let ?s = "s \<lparr> upstream_calls := upstream_calls s @ [req] \<rparr>"
  let ?s3 = "fire (clock s + CACHE_TTL) k s2"
  from begun first have s1: "s1 = snd (POST_resume ?s k (fetch req))"
    by (simp add: POST_def k')
  with stored have "ttsCache (snd (POST_resume ?s k (fetch req))) \<noteq> ttsCache ?s"
    by simp
  then obtain st b where "fetch req = Fetch_response st (Some b)" "ok st"
      "cache_size (ttsCache ?s) < MAX_CACHE_SIZE"
    using POST_resume_cache [of ?s k "fetch req"] by auto
  with s1 have timers: "timers s1 = timers s @ [(clock s + CACHE_TTL, k)]"
    by (simp add: POST_resume_def store_def)
  then have "(clock s + CACHE_TTL, k) \<in> set (timers s1)"
    by simp
  with later pending have "(clock s + CACHE_TTL, k) \<in> set (timers s2)"
    by (simp add: run_timer_pending)
  with elapsed have enabled: "step env_key (Fire (clock s + CACHE_TTL) k) s2 = Some ?s3"
    by simp
  have gone: "ttsCache ?s3 = fmdrop k (ttsCache s2)" "upstream_calls ?s3 = upstream_calls s2"
    by (simp_all add: fire_def expire_def)
  then have miss: "fmlookup (ttsCache ?s3) k = None"
    by simp
  have "POST_begin env_key (ttsCache ?s3) (Parsed v) =
      Fetching (elevenlabs_request voice apiKey t) k"
    using fields t key miss env voice by (simp add: POST_begin_miss)
  then have "upstream_calls (snd (POST env_key fetch' ?s3 (Parsed v))) =
      upstream_calls ?s3 @ [elevenlabs_request voice apiKey t]"
    by (auto simp: POST_def POST_resume_def store_def split: fetch_result.splits option.splits)
  with timers enabled gone miss show ?thesis
    by (simp add: CACHE_TTL_def)
qed

text \<open>
  An instance: the entry stored by the first request at time 0, the clock moved to
  300000, the timer fired, the same request again.
\<close>

theorem C9_expiry_removes_entry_witness:
  "timers warm_state = [(300000, hello_key)] \<and>
   step api_key (Fire 300000 hello_key) (warm_state \<lparr> clock := 300000 \<rparr>) =
     Some (fire 300000 hello_key (warm_state \<lparr> clock := 300000 \<rparr>)) \<and>
   fmlookup (ttsCache (fire 300000 hello_key (warm_state \<lparr> clock := 300000 \<rparr>))) hello_key =
     None \<and>
   length (upstream_calls (snd (POST api_key provider_b
      (fire 300000 hello_key (warm_state \<lparr> clock := 300000 \<rparr>)) hello))) = 2"
proof -
  have stored: "ttsCache warm_state \<noteq> ttsCache init_state"
    by (simp add: warm_state_fields init_state_fields)
  have later: "run api_key [Tick 300000] warm_state = Some (warm_state \<lparr> clock := 300000 \<rparr>)"
    by (simp add: warm_state_fields)
  have pending: "Fire (clock init_state + CACHE_TTL) hello_key \<notin> set [Tick 300000]"
    by simp
  have elapsed: "clock init_state + CACHE_TTL \<le> clock (warm_state \<lparr> clock := 300000 \<rparr>)"
    by (simp add: init_state_fields CACHE_TTL_def)
  show ?thesis
    using C9_expiry_removes_entry
      [OF hello_fields hello_cacheKey hello_first stored later pending elapsed, of provider_b]
    by (simp add: hello_def say_def init_state_fields warm_state_fields CACHE_TTL_def)
qed

subsection \<open>Failures\<close>

text \<open>
  C4. When the call to the provider is answered with a status outside 200..299, the
  request is answered with status 500 and the JSON body
  \<open>{ error: "Failed to generate speech" }\<close>; the cache and the timers are as before, in
  whatever state the response finds the module; of the state only the log of calls has
  grown by this call.
\<close>

theorem C4_upstream_failure_not_cached:
  assumes "\<not> ok st"
    and "POST_begin env_key (ttsCache s) body = Fetching req k"
    and "fetch req = Fetch_response st content"
  shows "POST env_key fetch s body =
           (Json_error 500 ''Failed to generate speech'',
            s \<lparr> upstream_calls := upstream_calls s @ [req] \<rparr>) \<and>
         POST_resume s' k (Fetch_response st content) =
           (Json_error 500 ''Failed to generate speech'', s')"
  using assms by (simp add: POST_def POST_resume_def failed_def)

text \<open>An instance: the provider answers 503 to the first request.\<close>

theorem C4_upstream_failure_not_cached_witness:
  "POST api_key provider_503 init_state hello =
     (Json_error 500 ''Failed to generate speech'',
      init_state \<lparr> upstream_calls := upstream_calls init_state @ [hello_request] \<rparr>) \<and>
   POST_resume warm_state hello_key (Fetch_response 503 (Some [])) =
     (Json_error 500 ''Failed to generate speech'', warm_state)"
proof -
  have bad: "\<not> ok 503"
    by (simp add: ok_def)
  have begun: "POST_begin api_key (ttsCache init_state) hello = Fetching hello_request hello_key"
    by (simp add: init_state_fields hello_begin)
  have resp: "provider_503 hello_request = Fetch_response 503 (Some [])"
    by (simp add: provider_503_def)
  from bad begun resp show ?thesis
    by (rule C4_upstream_failure_not_cached
          [where st = 503 and env_key = api_key and s = init_state and body = hello
             and req = hello_request and k = hello_key and fetch = provider_503
             and content = "Some []" and s' = warm_state])
qed

text \<open>
  C5 asks for status 400 whenever the body parses and has no \<open>text\<close>. The body \<open>null\<close>
  parses and has no \<open>text\<close>, but the handler answers it with status 500 and the body
  \<open>{ error: "Failed to generate speech" }\<close>, in every state and with or without the
  credential: reading a property of \<open>null\<close> throws on the line that takes the body apart,
  before the check of \<open>text\<close> that answers 400 is reached.
\<close>

theorem C5_null_body_answered_500:
  "POST env_key fetch s (Parsed Null) = (Json_error 500 ''Failed to generate speech'', s) \<and>
   status (fst (POST env_key fetch s (Parsed Null))) \<noteq> 400"
  by (simp add: POST_def POST_begin_def destructure_def failed_def)

text \<open>
  Every other body gets what is asked for. When the body parses to a value whose \<open>text\<close>
  property can be read and is missing or falsy (the empty string, \<open>null\<close>, \<open>false\<close>, \<open>0\<close>),
  the request is answered with status 400 and the JSON body
  \<open>{ error: "Text is required" }\<close> and the state is as before, so no call to the provider
  is made; this is so for every cache and whether or not the credential is there. The
  property can be read of every parsed value but \<open>null\<close>.
\<close>

theorem missing_text_rejected:
  assumes "get_prop v (js ''text'') = Some t" and "\<not> truthy t"
  shows "POST env_key fetch s (Parsed v) = (Json_error 400 ''Text is required'', s) \<and>
         step env_key (Arrive (Parsed v)) s = Some s"
  using assms
  by (cases "get_prop v (js ''voice_id'')")
     (auto simp: POST_def POST_begin_def destructure_def get_prop_None_iff)

text \<open>
  An instance: a body with no \<open>text\<close>, a body whose \<open>text\<close> is empty, and a body that is
  not an object.
\<close>

theorem missing_text_rejected_instance:
  "POST None provider_down warm_state (Parsed (Obj [(js ''voice_id'', Str (js ''v1''))])) =
     (Json_error 400 ''Text is required'', warm_state) \<and>
   POST api_key provider_a init_state (Parsed (Obj [(js ''text'', Str [])])) =
     (Json_error 400 ''Text is required'', init_state) \<and>
   POST api_key provider_a init_state (Parsed (Arr [])) =
     (Json_error 400 ''Text is required'', init_state)"
proof -
  have missing: "get_prop (Obj [(js ''voice_id'', Str (js ''v1''))]) (js ''text'') = Some Undefined"
    by (simp add: js_def)
  have empty: "get_prop (Obj [(js ''text'', Str [])]) (js ''text'') = Some (Str [])"
    by simp
  have array: "get_prop (Arr []) (js ''text'') = Some Undefined"
    by simp
  show ?thesis
    using missing_text_rejected [OF missing, of None provider_down warm_state]
      missing_text_rejected [OF empty, of api_key provider_a init_state]
      missing_text_rejected [OF array, of api_key provider_a init_state]
    by simp
qed

text \<open>
  C6, with the cache looked up first. For a request with a truthy \<open>text\<close> and a cache
  key \<open>k\<close>, when the credential is unset or empty: if \<open>k\<close> is not in the cache, the request
  is answered with status 500 and the JSON body
  \<open>{ error: "ElevenLabs API key not configured" }\<close>; if \<open>k\<close> is in the cache, it is
  answered with the cached audio. Either way the state is as before and no call to the
  provider is made.
\<close>

theorem C6_missing_credential:
  assumes "destructure v = Some (t, vid)" and "truthy t" and "cacheKey vid t = Some k"
    and "env_key = None \<or> env_key = Some []"
  shows "POST env_key fetch s (Parsed v) =
     (case fmlookup (ttsCache s) k of
        Some cachedAudio \<Rightarrow> Audio cachedAudio
      | None \<Rightarrow> Json_error 500 ''ElevenLabs API key not configured'',
      s)"
  using assms by (auto simp: POST_def POST_begin_def split: option.splits)

text \<open>An instance: no credential and the empty cache; an empty credential likewise.\<close>

theorem C6_missing_credential_witness:
  "POST None provider_a init_state (Parsed (Obj [(js ''text'', Str (js ''hello''))])) =
     (Json_error 500 ''ElevenLabs API key not configured'', init_state) \<and>
   POST (Some []) provider_a init_state (Parsed (Obj [(js ''text'', Str (js ''hello''))])) =
     (Json_error 500 ''ElevenLabs API key not configured'', init_state)"
proof -
  have t: "truthy (Str (js ''hello''))"
    by (simp add: hello_text)
  show ?thesis
    using C6_missing_credential [OF hello_fields t hello_cacheKey, of None provider_a init_state]
      C6_missing_credential [OF hello_fields t hello_cacheKey, of "Some []" provider_a init_state]
    by (simp add: init_state_fields)
qed

text \<open>
  With the entry cached by an earlier request, the same request is answered with the
  audio although the credential is gone.
\<close>

theorem missing_credential_cache_hit_counterexample:
  "POST None provider_down warm_state hello = (Audio [1], warm_state)"
  using hello_text(1)
  by (simp add: POST_def hello_def say_def warm_state_fields
        POST_begin_hit [OF hello_fields _ hello_cacheKey])

text \<open>
  C10. A body that is not JSON is answered with status 500 and the JSON body
  \<open>{ error: "Failed to generate speech" }\<close>, not with 400; the state is as before, so the
  cache is unchanged and no call to the provider is made.
\<close>

theorem C10_invalid_json_fails:
  "POST env_key fetch s Not_json = (Json_error 500 ''Failed to generate speech'', s) \<and>
   status (fst (POST env_key fetch s Not_json)) \<noteq> 400 \<and>
   step env_key (Arrive Not_json) s = Some s"
  by (simp add: POST_def POST_begin_def failed_def)

subsection \<open>The cache key\<close>

text \<open>
  C7, for voice identifiers without an underscore. Two requests with string \<open>voice_id\<close>
  and \<open>text\<close> that have equal voice identifiers and equal first 100 code units of text use
  the same cache key. Conversely, when neither voice identifier contains an underscore,
  two requests that use the same key have equal voice identifiers and equal first 100 code
  units of text: on such pairs the key is injective.
\<close>

theorem C7_cache_key_injective:
  "(v1 = v2 \<and> take 100 t1 = take 100 t2 \<longrightarrow>
      cacheKey (Str v1) (Str t1) = cacheKey (Str v2) (Str t2)) \<and>
   (underscore \<notin> set v1 \<and> underscore \<notin> set v2 \<and>
    cacheKey (Str v1) (Str t1) = cacheKey (Str v2) (Str t2) \<longrightarrow>
      v1 = v2 \<and> take 100 t1 = take 100 t2)"
  by (auto simp: cacheKey_Str key_of_inj)

text \<open>
  An instance: two texts of 101 code units that differ in the last one only, with the
  default voice.
\<close>

theorem C7_cache_key_injective_witness:
  "cacheKey (Str default_voice_id) (Str (replicate 100 97 @ [98])) =
     cacheKey (Str default_voice_id) (Str (replicate 100 97 @ [99])) \<and>
   underscore \<notin> set default_voice_id \<and>
   take 100 (replicate 100 97 @ [98 :: 16 word]) = take 100 (replicate 100 97 @ [99])"
proof -
  have u: "underscore \<notin> set default_voice_id"
    by (simp add: underscore_def default_voice_id_def js_def)
  have p: "take 100 (replicate 100 97 @ [98 :: 16 word]) = take 100 (replicate 100 97 @ [99])"
    by simp
  show ?thesis
    using C7_cache_key_injective
      [of default_voice_id default_voice_id "replicate 100 97 @ [98]" "replicate 100 97 @ [99]"]
      u p
    by simp
qed

text \<open>
  With an underscore in a voice identifier the key is not injective: the voice \<open>a_\<close> with
  the text \<open>b\<close> and the voice \<open>a\<close> with the text \<open>_b\<close> share the key \<open>a__b\<close>.
\<close>

theorem cache_key_collision_counterexample:
  "cacheKey (Str (js ''a_'')) (Str (js ''b'')) = Some (js ''a__b'') \<and>
   cacheKey (Str (js ''a'')) (Str (js ''_b'')) = Some (js ''a__b'') \<and>
   js ''a_'' \<noteq> js ''a'' \<and>
   take 100 (js ''b'') \<noteq> take 100 (js ''_b'')"
  by (simp add: cacheKey_Str key_of_def js_def)

section \<open>The BI query route: what holds\<close>

text \<open>
  C2. When the call throws an axios error without a response but with a request made,
  the answer is status 502 with \<open>{ error: "No response from server" }\<close>. When it throws
  an axios error with a response of an error status (4xx or 5xx), the answer has the
  status of that response and the body \<open>{ error: "Server error", details: d }\<close> with \<open>d\<close>
  the data of that response. Every other fault (an axios error with neither, another error, a body that is not JSON) is
  answered with status 500 and \<open>{ error: "Internal server error" }\<close>.
\<close>

theorem C2_bi_failure_taxonomy:
  "(axios1 (bi_request body) = Rejected (Axios_error None True) \<longrightarrow>
      fst (POST_bi axios1 (Some body)) =
        Bi_response 502 (Error_body ''No response from server'' None)) \<and>
   (axios2 (bi_request body) = Rejected (Axios_error (Some (st, details)) sent) \<and>
    400 \<le> st \<and> st \<le> 599 \<longrightarrow>
      fst (POST_bi axios2 (Some body)) =
        Bi_response st (Error_body ''Server error'' (Some details))) \<and>
   (axios3 (bi_request body) = Rejected (Axios_error None False) \<or>
    axios3 (bi_request body) = Rejected Other_error \<longrightarrow>
      fst (POST_bi axios3 (Some body)) =
        Bi_response 500 (Error_body ''Internal server error'' None)) \<and>
   POST_bi axios4 None = (Bi_response 500 (Error_body ''Internal server error'' None), [])"
  by (auto simp: POST_bi_def json_response_def)

text \<open>An instance: the server unreachable, a 404 from the server, a request never sent.\<close>

theorem C2_bi_failure_taxonomy_witness:
  "fst (POST_bi axios_unreachable (Some question)) =
     Bi_response 502 (Error_body ''No response from server'' None) \<and>
   fst (POST_bi axios_404 (Some question)) =
     Bi_response 404 (Error_body ''Server error'' (Some (Str (js ''Not Found'')))) \<and>
   fst (POST_bi axios_unsent (Some question)) =
     Bi_response 500 (Error_body ''Internal server error'' None)"
  using C2_bi_failure_taxonomy
    [of axios_unreachable question axios_404 404 "Str (js ''Not Found'')" True axios_unsent
       axios_ok]
  by (simp add: axios_unreachable_def axios_404_def axios_unsent_def)

text \<open>
  C8 asks that every JSON body reaches the endpoint unmodified. A body that is a JSON
  string whose content is itself JSON text does not: the string \<open>123\<close> goes out as the
  three code units \<open>123\<close>, without its quotes, which is the JSON text of the number 123,
  and the string \<open>null\<close> as the text of \<open>null\<close>. The number 123 itself goes out as its
  JSON text, as asked.
\<close>

theorem C8_json_text_string_sent_unquoted:
  "map wire_body (snd (POST_bi axios_post (Some (Str (js ''123''))))) = [Raw (js ''123'')] \<and>
   map wire_body (snd (POST_bi axios_post (Some (Str (js ''null''))))) = [Raw (js ''null'')] \<and>
   Raw (js ''123'') \<noteq> Encoded (Str (js ''123'')) \<and>
   map wire_body (snd (POST_bi axios_post (Some (Num False (js ''123''))))) =
     [Encoded (Num False (js ''123''))]"
proof -
  have "json_text (js ''123'')" "json_text (js ''null'')"
    by code_simp+
  moreover have "trim (js ''123'') = js ''123''" "trim (js ''null'') = js ''null''"
    by (simp_all add: trim_def is_js_space_def js_def)
  ultimately show ?thesis
    by (simp add: POST_bi_def bi_request_def wire_body_def stringifySafely_def
          split: axios_result.splits)
qed

text \<open>
  Every other body is forwarded as asked. The route makes one call: a POST to the fixed
  endpoint with the headers \<open>Content-Type: application/json\<close> and
  \<open>Accept: application/json\<close>; unless the body is a string that is JSON text, what goes out
  is the JSON text of the body. When the call resolves, the answer is status 200 with the
  data it resolved to, as it is.
\<close>

theorem bi_relay:
  "map endpoint (snd (POST_bi axios_post (Some body))) = [''http://52.3.202.231:8080/bi/query''] \<and>
   map http_method (snd (POST_bi axios_post (Some body))) = [''POST''] \<and>
   map request_headers (snd (POST_bi axios_post (Some body))) =
     [[(''Content-Type'', ''application/json''), (''Accept'', ''application/json'')]] \<and>
   ((\<forall>s. body = Str s \<longrightarrow> \<not> json_text s) \<longrightarrow>
      map wire_body (snd (POST_bi axios_post (Some body))) = [Encoded body]) \<and>
   (axios_post (bi_request body) = Resolved d \<longrightarrow>
      fst (POST_bi axios_post (Some body)) = Bi_response 200 (Relayed d))"
  by (cases body)
     (auto simp: POST_bi_def bi_request_def json_response_def wire_body_def stringifySafely_def
           split: axios_result.splits)

text \<open>An instance: a question relayed and its answer returned.\<close>

theorem bi_relay_instance:
  "map wire_body (snd (POST_bi axios_ok (Some question))) = [Encoded question] \<and>
   fst (POST_bi axios_ok (Some question)) = Bi_response 200 (Relayed answer)"
  using bi_relay [of axios_ok question answer]
  by (simp add: axios_ok_def question_def)

end
